theory Spec2Isabelle
  imports Complex_Main "HOL-Library.Word"
begin

unbundle bit_operations_syntax

section \<open>RotaryEncoder.h: the interrupt-driven quadrature decoder\<close>

text \<open>
  The fields of \<^verbatim>\<open>class RotaryEncoder\<close>. The trailing underscore of the C++ member
  names is dropped. \<^verbatim>\<open>byte\<close> and \<^verbatim>\<open>uint8_t\<close> are 8-bit words, so \<^verbatim>\<open>++\<close> and
  \<^verbatim>\<open>--\<close> on \<^verbatim>\<open>rotary_index_\<close> wrap modulo 256. The reference to the 7-segment
  display is not a field of the model: what the handler prints is returned by it.
\<close>

type_synonym byte = "8 word"

datatype level = LOW | HIGH

record RotaryEncoder =
  pin_a :: byte
  pin_b :: byte
  enc_prev_pos :: byte
  enc_flags :: byte
  rotary_index :: byte
  max_index :: byte

text \<open>
  \<^verbatim>\<open>x % y\<close> on two \<^verbatim>\<open>uint8_t\<close>: both are promoted to \<^verbatim>\<open>int\<close>, the result is
  converted back. A zero divisor has no defined result.
\<close>

definition mod_u8 :: "byte \<Rightarrow> byte \<Rightarrow> byte option" where
  "mod_u8 x y = (if y = 0 then None else Some (x mod y))"

text \<open>
  The two \<^verbatim>\<open>digitalRead\<close> calls that open both the handler and the constructor:
  bit 0 is set when pin A reads LOW, bit 1 when pin B reads LOW.
\<close>

definition read_pos :: "level \<Rightarrow> level \<Rightarrow> byte" where
  "read_pos a b =
     (let p0 = (0 :: byte);
          p1 = (if a = LOW then p0 OR push_bit 0 1 else p0);
          p2 = (if b = LOW then p1 OR push_bit 1 1 else p1)
      in p2)"

text \<open>
  \<^verbatim>\<open>RotaryEncoder::pin_isr\<close>, on the object \<^verbatim>\<open>instance_\<close> points to. The arguments
  \<open>a\<close> and \<open>b\<close> are the levels the two \<^verbatim>\<open>digitalRead\<close> calls return. The result is
  the updated object and what was printed to the display: \<open>None\<close> when \<^verbatim>\<open>change\<close>
  stayed false, \<open>Some v\<close> when \<^verbatim>\<open>rotary_index_ % max_index_\<close> was printed.
\<close>

definition pin_isr :: "RotaryEncoder \<Rightarrow> level \<Rightarrow> level \<Rightarrow> RotaryEncoder \<times> byte option option" where
  "pin_isr enc a b =
     (let enc_cur_pos = read_pos a b;
          prev = enc_prev_pos enc;
          fl0 = enc_flags enc;
          idx0 = rotary_index enc;
          (fl, idx, change) =
            (if enc_cur_pos \<noteq> prev then
               (let fl1 = (if prev = 0 then
                             (if enc_cur_pos = 1 then fl0 OR push_bit 0 1
                              else if enc_cur_pos = 2 then fl0 OR push_bit 1 1
                              else fl0)
                           else fl0)
                in if enc_cur_pos = 3 then (fl1 OR push_bit 4 1, idx0, False)
                   else if enc_cur_pos = 0 then
                     (let fl2 = (if prev = 2 then fl1 OR push_bit 2 1
                                 else if prev = 1 then fl1 OR push_bit 3 1
                                 else fl1)
                      in if bit fl2 0 \<and> (bit fl2 2 \<or> bit fl2 4) then (0, idx0 + 1, True)
                         else if bit fl2 1 \<and> (bit fl2 3 \<or> bit fl2 4) then (0, idx0 - 1, True)
                         else (0, idx0, False))
                   else (fl1, idx0, False))
             else (fl0, idx0, False))
      in (enc\<lparr>enc_prev_pos := enc_cur_pos, enc_flags := fl, rotary_index := idx\<rparr>,
          if change then Some (mod_u8 idx (max_index enc)) else None))"

text \<open>
  The constructor, as far as the object is concerned: the member initialisers and the
  initial reading of the two pins. (The registration in \<^verbatim>\<open>instance_\<close> is below.)
\<close>

definition RotaryEncoder_init :: "byte \<Rightarrow> byte \<Rightarrow> byte \<Rightarrow> level \<Rightarrow> level \<Rightarrow> RotaryEncoder" where
  "RotaryEncoder_init pa pb mx a b =
     \<lparr>pin_a = pa, pin_b = pb,
      enc_prev_pos = (let p0 = (0 :: byte);
                          p1 = (if a = LOW then p0 OR 1 else p0);
                          p2 = (if b = LOW then p1 OR 2 else p1)
                      in p2),
      enc_flags = 0, rotary_index = 0, max_index = mx\<rparr>"

text \<open>
  \<^verbatim>\<open>getIndex\<close>: the copy of the counter taken with interrupts off, reduced modulo
  \<^verbatim>\<open>max_index_\<close>.
\<close>

definition getIndex :: "RotaryEncoder \<Rightarrow> byte option" where
  "getIndex enc = (let index = rotary_index enc in mod_u8 index (max_index enc))"

text \<open>A run of the handler over the successive readings of the two pins.\<close>

fun run_isr :: "RotaryEncoder \<Rightarrow> (level \<times> level) list \<Rightarrow> RotaryEncoder" where
  "run_isr enc [] = enc"
| "run_isr enc ((a, b) # rs) = run_isr (fst (pin_isr enc a b)) rs"

text \<open>
  The four composite pin states, named by the value of \<^verbatim>\<open>enc_cur_pos\<close> the handler
  computes from them (bit 1, bit 0).
\<close>

definition st00 :: "level \<times> level" where "st00 = (HIGH, HIGH)"
definition st01 :: "level \<times> level" where "st01 = (LOW, HIGH)"
definition st10 :: "level \<times> level" where "st10 = (HIGH, LOW)"
definition st11 :: "level \<times> level" where "st11 = (LOW, LOW)"

text \<open>
  The states the decoder can be in: freshly constructed, whatever the pins read at that
  moment, and then after any number of handler invocations, whatever they read.
\<close>

inductive reachable :: "RotaryEncoder \<Rightarrow> bool" where
  constructed: "reachable (RotaryEncoder_init pa pb mx a b)"
| handled: "reachable enc \<Longrightarrow> reachable (fst (pin_isr enc a b))"

text \<open>
  The closing edge that would be taken from this state pairs with the first edge already
  recorded: bit 0 is set and the state left is 10 (so bit 2 would be set), or bit 1 is
  set and the state left is 01 (so bit 3 would be set).
\<close>

definition paired_edges :: "RotaryEncoder \<Rightarrow> bool" where
  "paired_edges enc =
     ((bit (enc_flags enc) 0 \<and> enc_prev_pos enc = 2) \<or>
      (bit (enc_flags enc) 1 \<and> enc_prev_pos enc = 1))"

text \<open>
  Between leaving 00 and returning to it without passing 11, the flags hold at most one
  first-edge bit and the counter does not move.
\<close>

definition half_way :: "RotaryEncoder \<Rightarrow> bool" where
  "half_way enc =
     ((enc_flags enc = 0 \<and> enc_prev_pos enc = 0) \<or>
      ((enc_flags enc = 1 \<or> enc_flags enc = 2) \<and> (enc_prev_pos enc = 1 \<or> enc_prev_pos enc = 2)))"

text \<open>Clean quarter-turns, as the readings the handler sees during each.\<close>

datatype turn = CW | CCW

fun turn_readings :: "turn \<Rightarrow> (level \<times> level) list" where
  "turn_readings CW = [st01, st11, st10, st00]"
| "turn_readings CCW = [st10, st11, st01, st00]"

definition run_turns :: "RotaryEncoder \<Rightarrow> turn list \<Rightarrow> RotaryEncoder" where
  "run_turns enc ts = run_isr enc (concat (map turn_readings ts))"

subsection \<open>The static instance pointer\<close>

text \<open>
  \<^verbatim>\<open>static RotaryEncoder *instance_\<close> and the objects it may point to. Objects are
  named by their address; \<open>objects\<close> holds the live ones, \<open>attached\<close> the pins whose
  interrupt has \<^verbatim>\<open>pin_isr\<close> attached. The environment \<open>digitalRead\<close> gives the level of
  every pin.
\<close>

record process =
  instance_ptr :: "nat option"
  objects :: "nat \<rightharpoonup> RotaryEncoder"
  attached :: "byte set"

definition startup :: process where
  "startup = \<lparr>instance_ptr = None, objects = Map.empty, attached = {}\<rparr>"

definition all_high :: "byte \<Rightarrow> level" where
  "all_high p = HIGH"

text \<open>
  The constructor run for the object at address \<open>this\<close>. It has no failing branch:
  \<^verbatim>\<open>if (!instance_) instance_ = this;\<close> is its last statement.
\<close>

definition RotaryEncoder_ctor ::
  "process \<Rightarrow> nat \<Rightarrow> byte \<Rightarrow> byte \<Rightarrow> byte \<Rightarrow> (byte \<Rightarrow> level) \<Rightarrow> process" where
  "RotaryEncoder_ctor p this pa pb mx digitalRead =
     p\<lparr>objects := (objects p)(this \<mapsto> RotaryEncoder_init pa pb mx (digitalRead pa) (digitalRead pb)),
       attached := attached p \<union> {pa, pb},
       instance_ptr := (if instance_ptr p = None then Some this else instance_ptr p)\<rparr>"

text \<open>The destructor detaches the two interrupts and leaves \<^verbatim>\<open>instance_\<close> as it is.\<close>

definition RotaryEncoder_dtor :: "process \<Rightarrow> nat \<Rightarrow> process" where
  "RotaryEncoder_dtor p this =
     (case objects p this of
        None \<Rightarrow> p
      | Some enc \<Rightarrow> p\<lparr>objects := (objects p)(this := None),
                      attached := attached p - {pin_a enc, pin_b enc}\<rparr>)"

text \<open>
  The handler as the interrupt vector runs it: on \<^verbatim>\<open>*instance_\<close>, whichever pin fired.
  \<open>None\<close> is the dereference of a null or dangling \<^verbatim>\<open>instance_\<close>.
\<close>

definition pin_isr_static ::
  "process \<Rightarrow> (byte \<Rightarrow> level) \<Rightarrow> (process \<times> byte option option) option" where
  "pin_isr_static p digitalRead =
     (case instance_ptr p of
        None \<Rightarrow> None
      | Some addr \<Rightarrow>
          (case objects p addr of
             None \<Rightarrow> None
           | Some enc \<Rightarrow>
               (let (enc', printed) = pin_isr enc (digitalRead (pin_a enc)) (digitalRead (pin_b enc))
                in Some (p\<lparr>objects := (objects p)(addr \<mapsto> enc')\<rparr>, printed))))"

text \<open>
  Successive interrupts, one environment per interrupt; a run stops with \<open>None\<close> at the
  first failed dereference.
\<close>

fun run_static :: "process \<Rightarrow> (byte \<Rightarrow> level) list \<Rightarrow> process option" where
  "run_static p [] = Some p"
| "run_static p (digitalRead # rest) =
     (case pin_isr_static p digitalRead of
        None \<Rightarrow> None
      | Some (q, printed) \<Rightarrow> run_static q rest)"

text \<open>The readings the handler takes of an encoder's two pins in an environment.\<close>

definition pins_read :: "RotaryEncoder \<Rightarrow> (byte \<Rightarrow> level) \<Rightarrow> level \<times> level" where
  "pins_read enc digitalRead = (digitalRead (pin_a enc), digitalRead (pin_b enc))"

section \<open>Potentiometer.h: the reader with hysteresis\<close>

text \<open>
  The values are C \<^verbatim>\<open>int\<close>s; with readings of the 10-bit converter nothing here leaves
  the range of a 16-bit \<^verbatim>\<open>int\<close>, so they are modelled as integers. \<^verbatim>\<open>INT_MAX\<close> is that of
  the 16-bit \<^verbatim>\<open>int\<close> of the AVR boards the sketch is written for.
\<close>

definition LOG_BIN_SIZE :: nat where "LOG_BIN_SIZE = 5"
definition ADC_BITS :: nat where "ADC_BITS = 10"
definition HYSTERESIS :: int where "HYSTERESIS = 8"
definition ADC_TO_BIN_SHIFT :: nat where "ADC_TO_BIN_SHIFT = ADC_BITS - LOG_BIN_SIZE"
definition BIN_SIZE :: int where "BIN_SIZE = push_bit LOG_BIN_SIZE 1"
definition INT_MAX :: int where "INT_MAX = 32767"
definition NO_CHANGE :: int where "NO_CHANGE = INT_MAX"

record Potentiometer =
  current_bin :: int
  pin :: byte

definition Potentiometer_init :: "byte \<Rightarrow> Potentiometer" where
  "Potentiometer_init p = \<lparr>current_bin = NO_CHANGE, pin = p\<rparr>"

text \<open>
  \<^verbatim>\<open>Potentiometer::update\<close>; \<open>next_value\<close> is what \<^verbatim>\<open>analogRead(pin_)\<close> returns. The
  result is the updated object and the value returned: \<open>Some v\<close> for \<^verbatim>\<open>return v\<close>, and
  \<open>None\<close> where control reaches the closing brace of the function without a
  \<^verbatim>\<open>return\<close> statement, which is the case when the bin differs and neither hysteresis
  test holds.
\<close>

definition update :: "Potentiometer \<Rightarrow> int \<Rightarrow> Potentiometer \<times> int option" where
  "update pot next_value =
     (let next_bin = drop_bit ADC_TO_BIN_SHIFT next_value
      in if current_bin pot = NO_CHANGE then
           (pot\<lparr>current_bin := next_bin\<rparr>, Some next_bin)
         else if next_bin \<noteq> current_bin pot then
           (let bin_start = push_bit ADC_TO_BIN_SHIFT (current_bin pot);
                bin_end = bin_start + (BIN_SIZE - 1)
            in if next_value < bin_start - HYSTERESIS then
                 (pot\<lparr>current_bin := next_bin\<rparr>, Some next_bin)
               else if next_value > bin_end + HYSTERESIS then
                 (pot\<lparr>current_bin := next_bin\<rparr>, Some next_bin)
               else (pot, None))
         else (pot, Some NO_CHANGE))"

text \<open>Successive calls, one per reading.\<close>

fun run_updates :: "Potentiometer \<Rightarrow> int list \<Rightarrow> Potentiometer" where
  "run_updates pot [] = pot"
| "run_updates pot (r # rs) = run_updates (fst (update pot r)) rs"

section \<open>LedProgram.h: the patterns\<close>

text \<open>
  The pixel driver (\<^verbatim>\<open>Adafruit_DotStar\<close>) is a library outside the repository. Of it
  the model keeps what the sketch uses: the pixel buffer, one packed colour per pixel; the
  data and clock pins written to (\<open>None\<close> after the argument-less \<^verbatim>\<open>updatePins()\<close>, the
  driver's own bus); and the brightness.
\<close>

type_synonym u16 = "16 word"
type_synonym color = "32 word"

record Adafruit_DotStar =
  pixels :: "color list"
  bus :: "(byte \<times> byte) option"
  level_of_brightness :: byte

definition Adafruit_DotStar_init :: "nat \<Rightarrow> byte \<Rightarrow> byte \<Rightarrow> Adafruit_DotStar" where
  "Adafruit_DotStar_init n dpin cpin =
     \<lparr>pixels = replicate n 0, bus = Some (dpin, cpin), level_of_brightness = 0\<rparr>"

definition numPixels :: "Adafruit_DotStar \<Rightarrow> nat" where
  "numPixels s = length (pixels s)"

definition Color :: "byte \<Rightarrow> byte \<Rightarrow> byte \<Rightarrow> color" where
  "Color r g b = push_bit 16 (ucast r) OR push_bit 8 (ucast g) OR ucast b"

definition setPixelColor :: "Adafruit_DotStar \<Rightarrow> nat \<Rightarrow> color \<Rightarrow> Adafruit_DotStar" where
  "setPixelColor s n c = (if n < numPixels s then s\<lparr>pixels := (pixels s)[n := c]\<rparr> else s)"

definition updatePins0 :: "Adafruit_DotStar \<Rightarrow> Adafruit_DotStar" where
  "updatePins0 s = s\<lparr>bus := None\<rparr>"

definition updatePins :: "Adafruit_DotStar \<Rightarrow> byte \<Rightarrow> byte \<Rightarrow> Adafruit_DotStar" where
  "updatePins s dpin cpin = s\<lparr>bus := Some (dpin, cpin)\<rparr>"

definition setBrightness :: "Adafruit_DotStar \<Rightarrow> byte \<Rightarrow> Adafruit_DotStar" where
  "setBrightness s v = s\<lparr>level_of_brightness := v\<rparr>"

text \<open>What one \<^verbatim>\<open>show()\<close> puts on the wire: where, which pixels, how bright.\<close>

record frame =
  fr_bus :: "(byte \<times> byte) option"
  fr_pixels :: "color list"
  fr_brightness :: byte

definition show_strip :: "Adafruit_DotStar \<Rightarrow> frame" where
  "show_strip s = \<lparr>fr_bus = bus s, fr_pixels = pixels s, fr_brightness = level_of_brightness s\<rparr>"

text \<open>The gamma correction table: a zero, fifty ones, and the rest of the curve.\<close>

definition gc_table :: "byte list" where
  "gc_table = 0 # replicate 50 1 @ [
      2, 2, 2, 2, 2, 2, 2, 3, 3, 3, 3, 3, 3, 4, 4, 4,
      4, 4, 5, 5, 5, 5, 5, 6, 6, 6, 7, 7, 7, 7, 8, 8,
      8, 9, 9, 9, 10, 10, 10, 11, 11, 11, 12, 12, 13, 13, 14, 14,
      14, 15, 15, 16, 16, 17, 17, 18, 18, 19, 19, 20, 21, 21, 22, 22,
      23, 24, 24, 25, 25, 26, 27, 27, 28, 29, 30, 30, 31, 32, 33, 33,
      34, 35, 36, 37, 37, 38, 39, 40, 41, 42, 43, 44, 44, 45, 46, 47,
      48, 49, 50, 51, 52, 54, 55, 56, 57, 58, 59, 60, 61, 62, 64, 65,
      66, 67, 69, 70, 71, 72, 74, 75, 76, 78, 79, 81, 82, 83, 85, 86,
      88, 89, 91, 92, 94, 95, 97, 98, 100, 102, 103, 105, 107, 108, 110, 112,
      114, 115, 117, 119, 121, 123, 124, 126, 128, 130, 132, 134, 136, 138, 140, 142,
      144, 146, 148, 150, 152, 154, 157, 159, 161, 163, 165, 168, 170, 172, 175, 177,
      179, 182, 184, 187, 189, 192, 194, 197, 199, 202, 204, 207, 209, 212, 215, 217,
      220, 223, 226, 228, 231, 234, 237, 240, 243, 246, 249, 252, 255]"

definition maxBrightness :: u16 where "maxBrightness = push_bit 10 1"
definition maxFrequency :: u16 where "maxFrequency = push_bit 10 1"

text \<open>
  The four patterns with their private members: \<^verbatim>\<open>on\<close> for the blinker, \<^verbatim>\<open>on\<close> and
  \<^verbatim>\<open>rgb\<close> for the RGB blinker; the other two have none.
\<close>

datatype LedProgram =
    BlinkerProg bool
  | RgbBlinkerProg bool int
  | SingleColorProg
  | ColorTempProg

text \<open>
  The loop \<^verbatim>\<open>for (size_t i = 0; i < strip.numPixels(); ++i) strip.setPixelColor(i, color)\<close>
  that ends every \<^verbatim>\<open>updateStrip\<close>, from index \<open>i\<close> on.
\<close>

function fill_from :: "nat \<Rightarrow> Adafruit_DotStar \<Rightarrow> color \<Rightarrow> Adafruit_DotStar" where
  "fill_from i s c = (if i < numPixels s then fill_from (Suc i) (setPixelColor s i c) c else s)"
  by pat_completeness auto
termination
  by (relation "measure (\<lambda>(i, s, c). numPixels s - i)")
     (auto simp add: setPixelColor_def numPixels_def)

declare fill_from.simps [simp del]

text \<open>\<^verbatim>\<open>SingleColorProg::wheel\<close>; \<^verbatim>\<open>pos\<close> is a \<^verbatim>\<open>byte\<close>.\<close>

definition wheel :: "byte \<Rightarrow> color" where
  "wheel pos0 =
     (let pos = 255 - pos0
      in if pos < 85 then Color (255 - pos * 3) 0 (pos * 3)
         else if pos < 170 then (let pos1 = pos - 85 in Color 0 (pos1 * 3) (255 - pos1 * 3))
         else (let pos2 = pos - 170 in Color (pos2 * 3) (255 - pos2 * 3) 0))"

text \<open>
  \<^verbatim>\<open>ColorTempProg::clamp\<close> and \<^verbatim>\<open>color_temp_to_rgb\<close>. The source computes in floating
  point; here \<^verbatim>\<open>log\<close> and \<^verbatim>\<open>pow\<close> are the real logarithm and power and the conversion to
  \<^verbatim>\<open>int\<close> drops the fraction, so the colour is that of exact arithmetic. Nothing proved
  below depends on which colour it is.
\<close>

definition clamp :: "int \<Rightarrow> int \<Rightarrow> int \<Rightarrow> byte" where
  "clamp x mn mx = (if x < mn then of_int mn else if x > mx then of_int mx else of_int x)"

definition to_int :: "real \<Rightarrow> int" where
  "to_int x = (if 0 \<le> x then \<lfloor>x\<rfloor> else \<lceil>x\<rceil>)"

definition color_temp_to_rgb :: "u16 \<Rightarrow> color" where
  "color_temp_to_rgb temp0 =
     (if temp0 > 40000 \<or> temp0 < 1000 then Color 0 255 0
      else
        (let temp = temp0 div 100;
             (red, green, blue) =
               (if temp \<le> 66 then
                  (255,
                   to_int (99.4708025861 * ln (real (unat temp)) - 161.1195681661),
                   if temp \<le> 19 then 0
                   else to_int (138.5177312231 * ln (real (unat (temp - 10))) - 305.0447927307))
                else
                  (to_int (329.698727446 * (real (unat (temp - 60)) powr (- 0.1332047592))),
                   to_int (288.1221695283 * (real (unat (temp - 60)) powr (- 0.0755148492))),
                   255));
             red1 = gc_table ! unat (clamp red 0 255);
             green1 = gc_table ! unat (clamp green 0 255);
             blue1 = gc_table ! unat (clamp blue 0 255)
         in Color red1 green1 blue1))"

text \<open>
  \<^verbatim>\<open>updateStrip\<close> of each pattern, dispatched on the pattern as the virtual call is. The
  result is the pattern with its members updated and the strip buffer.
\<close>

fun updateStrip ::
  "LedProgram \<Rightarrow> Adafruit_DotStar \<Rightarrow> byte \<Rightarrow> u16 \<Rightarrow> u16 \<Rightarrow> LedProgram \<times> Adafruit_DotStar" where
  "updateStrip (BlinkerProg on) strip strip_nr brightness frequency =
     (if strip_nr \<noteq> 0 then (BlinkerProg on, strip)
      else
        (let on1 = \<not> on;
             color = (if on1 then Color 255 255 255 else Color 0 0 0)
         in (BlinkerProg on1, fill_from 0 strip color)))"
| "updateStrip (RgbBlinkerProg on rgb) strip strip_nr brightness frequency =
     (if strip_nr \<noteq> 0 then (RgbBlinkerProg on rgb, strip)
      else
        (let on1 = \<not> on;
             rgb1 = (if on1 then (if rgb = 2 then 0 else rgb + 1) else rgb);
             color0 = (if rgb1 = 0 then Color 255 0 0
                       else if rgb1 = 1 then Color 0 255 0
                       else Color 0 0 255);
             color = (if on1 then color0 else Color 0 0 0)
         in (RgbBlinkerProg on1 rgb1, fill_from 0 strip color)))"
| "updateStrip SingleColorProg strip strip_nr brightness frequency =
     (if strip_nr \<noteq> 0 then (SingleColorProg, strip)
      else
        (let color = wheel (ucast (frequency div (maxFrequency div 255)))
         in (SingleColorProg, fill_from 0 strip color)))"
| "updateStrip ColorTempProg strip strip_nr brightness frequency =
     (if strip_nr \<noteq> 0 then (ColorTempProg, strip)
      else
        (let color = color_temp_to_rgb (8 * frequency + 1000)
         in (ColorTempProg, fill_from 0 strip color)))"

section \<open>led\_monger.ino: the control loop\<close>

definition nr_strips :: nat where "nr_strips = 8"
definition leds_per_strip :: nat where "leds_per_strip = 144"

definition led_clk_pins :: "byte list" where
  "led_clk_pins = [52, 50, 48, 46, 44, 42, 40, 38]"

definition led_data_pins :: "byte list" where
  "led_data_pins = [53, 51, 49, 47, 45, 43, 41, 39]"

definition nr_progs :: byte where "nr_progs = 4"

text \<open>
  The divisor of \<^verbatim>\<open>1000UL/(freq != 0 ? log(freq): 1)\<close>, with the real logarithm, and the
  interval: the quotient converted to \<^verbatim>\<open>unsigned long\<close>. With a zero divisor the quotient
  is not a number an \<^verbatim>\<open>unsigned long\<close> can hold and the conversion has no defined
  result: \<open>None\<close>.
\<close>

definition interval_divisor :: "u16 \<Rightarrow> real" where
  "interval_divisor freq = (if freq \<noteq> 0 then ln (real (unat freq)) else 1)"

definition interval_millis :: "u16 \<Rightarrow> nat option" where
  "interval_millis freq =
     (let d = interval_divisor freq
      in if d = 0 then None
         else if - 1 < 1000 / d \<and> 1000 / d < 2 ^ 32 then Some (nat (to_int (1000 / d)))
         else None)"

text \<open>
  The calls the loop makes on the strip and on the pattern, in the order made. The trace
  is not in the source: it records the calls so that their order can be stated. A call of
  \<^verbatim>\<open>updateStrip\<close> is recorded with the pattern object it is made on, as its members are
  at the call, and with the channel index, brightness and frequency passed.
\<close>

datatype event =
    Call_updatePins "(byte \<times> byte) option"
  | Call_updateStrip LedProgram byte u16 u16
  | Call_setBrightness byte
  | Call_show frame

text \<open>
  The loop \<^verbatim>\<open>for (size_t i = 0; i < nr_strips; ++i)\<close> of \<^verbatim>\<open>loop()\<close>, from index \<open>i\<close> on.
\<close>

function strips_loop ::
  "nat \<Rightarrow> LedProgram \<Rightarrow> Adafruit_DotStar \<Rightarrow> u16 \<Rightarrow> u16 \<Rightarrow> event list
     \<Rightarrow> LedProgram \<times> Adafruit_DotStar \<times> event list" where
  "strips_loop i prog strip brightness freq tr =
     (if i < nr_strips then
        (let strip1 = (if i = 0 then updatePins0 strip
                       else updatePins strip (led_data_pins ! i) (led_clk_pins ! i));
             (prog1, strip2) = updateStrip prog strip1 (of_nat i) brightness freq;
             scale = ucast (brightness div (maxBrightness div 255));
             strip3 = setBrightness strip2 scale;
             tr1 = tr @ [Call_updatePins (bus strip1),
                         Call_updateStrip prog (of_nat i) brightness freq,
                         Call_setBrightness scale, Call_show (show_strip strip3)]
         in strips_loop (Suc i) prog1 strip3 brightness freq tr1)
      else (prog, strip, tr))"
  by pat_completeness auto
termination
  by (relation "measure (\<lambda>(i, prog, strip, brightness, freq, tr). nr_strips - i)") auto

declare strips_loop.simps [simp del]

text \<open>The end of \<^verbatim>\<open>loop()\<close>: how long to \<^verbatim>\<open>delay\<close>, if at all.\<close>

datatype pacing = Interval_undefined | No_delay | Delay nat

definition pace :: "nat option \<Rightarrow> nat \<Rightarrow> pacing" where
  "pace interval loop_time =
     (case interval of
        None \<Rightarrow> Interval_undefined
      | Some iv \<Rightarrow> if loop_time < iv then Delay (iv - loop_time) else No_delay)"

text \<open>
  The globals of the sketch and one run of \<^verbatim>\<open>loop()\<close>. \<open>freq\<close> and \<open>brightness\<close> are
  the two \<^verbatim>\<open>analogRead\<close> results, \<open>loop_time\<close> the milliseconds the body took. The
  position is read with \<^verbatim>\<open>getIndex\<close>, the synchronized read the encoder has (the sketch
  calls it \<^verbatim>\<open>getPos\<close>). Serial logging and the display are left out. \<open>None\<close> is a
  position that is undefined or outside \<^verbatim>\<open>progs\<close>.
\<close>

record sketch =
  strip :: Adafruit_DotStar
  progs :: "LedProgram list"
  which_prog :: byte
  rot :: RotaryEncoder

definition sketch_init :: "level \<Rightarrow> level \<Rightarrow> sketch" where
  "sketch_init a b =
     \<lparr>strip = Adafruit_DotStar_init leds_per_strip (led_data_pins ! 0) (led_clk_pins ! 0),
      progs = [BlinkerProg False, RgbBlinkerProg False 0, SingleColorProg, ColorTempProg],
      which_prog = 0,
      rot = RotaryEncoder_init 18 19 nr_progs a b\<rparr>"

definition loop :: "sketch \<Rightarrow> u16 \<Rightarrow> u16 \<Rightarrow> nat \<Rightarrow> (sketch \<times> event list \<times> pacing) option" where
  "loop sk freq brightness loop_time =
     (let interval = interval_millis freq
      in case getIndex (rot sk) of
           None \<Rightarrow> None
         | Some w \<Rightarrow>
             (if unat w < length (progs sk) then
                (let prog = progs sk ! unat w;
                     (prog1, strip1, tr) = strips_loop 0 prog (strip sk) brightness freq []
                 in Some (sk\<lparr>strip := strip1, progs := (progs sk)[unat w := prog1], which_prog := w\<rparr>,
                          tr, pace interval loop_time))
              else None))"

text \<open>The frames shown and the channel indices handed to the pattern, read off a trace.\<close>

fun shown :: "event list \<Rightarrow> frame list" where
  "shown [] = []"
| "shown (Call_show f # es) = f # shown es"
| "shown (e # es) = shown es"

fun strip_nrs :: "event list \<Rightarrow> byte list" where
  "strip_nrs [] = []"
| "strip_nrs (Call_updateStrip prog n brightness freq # es) = n # strip_nrs es"
| "strip_nrs (e # es) = strip_nrs es"

text \<open>
  The comparison the specification makes with the shared buffer: every channel has a
  buffer of its own, \<open>own i\<close>, and the pattern computes it from scratch, that is, runs for
  it the computation it runs for the first channel; no pixel is carried over from another
  channel. The pattern object is the same for all channels, so its members are carried
  from call to call; the patterns without members are the ones for which the result does
  not depend on the order of the calls.
\<close>

fun scratch_channels ::
  "nat list \<Rightarrow> LedProgram \<Rightarrow> (nat \<Rightarrow> Adafruit_DotStar) \<Rightarrow> u16 \<Rightarrow> u16 \<Rightarrow> frame list" where
  "scratch_channels [] prog own brightness freq = []"
| "scratch_channels (i # rest) prog own brightness freq =
     (let strip1 = (if i = 0 then updatePins0 (own i)
                    else updatePins (own i) (led_data_pins ! i) (led_clk_pins ! i));
          (prog1, strip2) = updateStrip prog strip1 0 brightness freq;
          strip3 = setBrightness strip2 (ucast (brightness div (maxBrightness div 255)))
      in show_strip strip3 # scratch_channels rest prog1 own brightness freq)"

definition render_from_scratch ::
  "LedProgram \<Rightarrow> (nat \<Rightarrow> Adafruit_DotStar) \<Rightarrow> u16 \<Rightarrow> u16 \<Rightarrow> frame list" where
  "render_from_scratch prog own brightness freq =
     scratch_channels [0..<nr_strips] prog own brightness freq"

fun order_independent :: "LedProgram \<Rightarrow> bool" where
  "order_independent SingleColorProg = True"
| "order_independent ColorTempProg = True"
| "order_independent (BlinkerProg on) = False"
| "order_independent (RgbBlinkerProg on rgb) = False"

text \<open>
  What the loop is expected to do for channel \<open>i\<close>: address the channel's pins (the
  first channel through the argument-less \<^verbatim>\<open>updatePins()\<close>), call the pattern \<open>prog\<close>
  with the channel index and the two readings, set the brightness scaled down from the
  brightness reading, show the buffer, which holds \<open>px\<close>.
\<close>

definition channel_bus :: "nat \<Rightarrow> (byte \<times> byte) option" where
  "channel_bus i = (if i = 0 then None else Some (led_data_pins ! i, led_clk_pins ! i))"

definition brightness_scale :: "u16 \<Rightarrow> byte" where
  "brightness_scale brightness = ucast (brightness div (maxBrightness div 255))"

definition channel_calls :: "nat \<Rightarrow> LedProgram \<Rightarrow> u16 \<Rightarrow> u16 \<Rightarrow> color list \<Rightarrow> event list" where
  "channel_calls i prog brightness freq px =
     [Call_updatePins (channel_bus i),
      Call_updateStrip prog (of_nat i) brightness freq,
      Call_setBrightness (brightness_scale brightness),
      Call_show \<lparr>fr_bus = channel_bus i, fr_pixels = px,
                 fr_brightness = brightness_scale brightness\<rparr>]"

text \<open>
  The pattern the position of the encoder selects: \<^verbatim>\<open>progs[which_prog]\<close> for the
  position read at the start of \<^verbatim>\<open>loop()\<close>.
\<close>

definition active_pattern :: "sketch \<Rightarrow> LedProgram" where
  "active_pattern sk = progs sk ! unat (rotary_index (rot sk) mod max_index (rot sk))"

text \<open>One buffer per channel, each built as the sketch builds its single one.\<close>

definition own_buffers :: "nat \<Rightarrow> Adafruit_DotStar" where
  "own_buffers i = Adafruit_DotStar_init leds_per_strip (led_data_pins ! i) (led_clk_pins ! i)"

section \<open>Properties of the decoder\<close>

lemma read_pos_values [simp]:
  "read_pos HIGH HIGH = 0" "read_pos LOW HIGH = 1"
  "read_pos HIGH LOW = 2" "read_pos LOW LOW = 3"
  by (simp_all add: read_pos_def)

lemma reachable_idle_flags:
  "reachable enc \<Longrightarrow> enc_prev_pos enc = 0 \<longrightarrow> enc_flags enc = 0"
proof (induction rule: reachable.induct)
  case (constructed pa pb mx a b)
  show ?case by (simp add: RotaryEncoder_init_def)
next
  case (handled enc a b)
  then show ?case
    by (cases a; cases b) (simp_all add: pin_isr_def Let_def)
qed

lemma run_isr_append: "run_isr enc (xs @ ys) = run_isr (run_isr enc xs) ys"
  by (induction xs arbitrary: enc) auto

lemma pin_isr_step:
  "rotary_index (fst (pin_isr e a b)) = rotary_index e
   \<or> rotary_index (fst (pin_isr e a b)) = rotary_index e + 1
   \<or> rotary_index (fst (pin_isr e a b)) = rotary_index e - 1"
  by (simp add: pin_isr_def Let_def)

lemma cw_turn:
  assumes "enc_prev_pos enc = 0"
  shows "run_isr enc [st01, st11, st10, st00]
           = enc\<lparr>enc_prev_pos := 0, enc_flags := 0, rotary_index := rotary_index enc + 1\<rparr>"
  using assms
  by (simp add: st00_def st01_def st10_def st11_def pin_isr_def Let_def bit_simps)

lemma ccw_turn:
  assumes "enc_prev_pos enc = 0" and "enc_flags enc = 0"
  shows "run_isr enc [st10, st11, st01, st00]
           = enc\<lparr>enc_prev_pos := 0, enc_flags := 0, rotary_index := rotary_index enc - 1\<rparr>"
  using assms
  by (simp add: st00_def st01_def st10_def st11_def pin_isr_def Let_def bit_simps)

text \<open>
  C1. From any state the decoder can be in with the pins idle (previous pin state 00), the
  readings 00\<rightarrow>01\<rightarrow>11\<rightarrow>10\<rightarrow>00 leave the counter one higher and the readings
  00\<rightarrow>10\<rightarrow>11\<rightarrow>01\<rightarrow>00 leave it one lower (in the 8-bit arithmetic of the counter), and
  no invocation of the handler, in any state and with any reading, moves the counter by
  more than one.
\<close>

theorem quarter_turn_counts:
  assumes "reachable enc" and "enc_prev_pos enc = 0"
  shows "rotary_index (run_isr enc [st01, st11, st10, st00]) = rotary_index enc + 1
       \<and> rotary_index (run_isr enc [st10, st11, st01, st00]) = rotary_index enc - 1
       \<and> (\<forall>e a b. rotary_index (fst (pin_isr e a b)) = rotary_index e
               \<or> rotary_index (fst (pin_isr e a b)) = rotary_index e + 1
               \<or> rotary_index (fst (pin_isr e a b)) = rotary_index e - 1)"
proof -
  from assms have fl: "enc_flags enc = 0" by (simp add: reachable_idle_flags)
  show ?thesis using assms(2) fl by (simp add: cw_turn ccw_turn pin_isr_step)
qed

theorem quarter_turn_counts_witness:
  "reachable (RotaryEncoder_init 18 19 4 HIGH HIGH)
   \<and> enc_prev_pos (RotaryEncoder_init 18 19 4 HIGH HIGH) = 0
   \<and> rotary_index (run_isr (RotaryEncoder_init 18 19 4 HIGH HIGH) [st01, st11, st10, st00]) = 1
   \<and> rotary_index (run_isr (RotaryEncoder_init 18 19 4 HIGH HIGH) [st10, st11, st01, st00]) = 255"
proof -
  let ?e = "RotaryEncoder_init 18 19 4 HIGH HIGH"
  have r: "reachable ?e" by (rule reachable.constructed)
  have p: "enc_prev_pos ?e = 0" by (simp add: RotaryEncoder_init_def)
  from quarter_turn_counts [OF r p] r p show ?thesis
    by (simp add: RotaryEncoder_init_def)
qed

lemma half_way_step:
  assumes "half_way enc" and "read_pos a b = 1 \<or> read_pos a b = 2"
  shows "half_way (fst (pin_isr enc a b))
       \<and> rotary_index (fst (pin_isr enc a b)) = rotary_index enc"
  using assms unfolding half_way_def
  by (elim disjE conjE; simp add: pin_isr_def Let_def)

lemma half_way_run:
  assumes "half_way enc" and "\<forall>(a, b) \<in> set xs. read_pos a b = 1 \<or> read_pos a b = 2"
  shows "half_way (run_isr enc xs) \<and> rotary_index (run_isr enc xs) = rotary_index enc"
  using assms
proof (induction xs arbitrary: enc)
  case Nil
  then show ?case by simp
next
  case (Cons r rs)
  obtain a b where r: "r = (a, b)" by (cases r)
  from Cons.prems r have ab: "read_pos a b = 1 \<or> read_pos a b = 2" by simp
  from half_way_step [OF Cons.prems(1) ab]
  have h: "half_way (fst (pin_isr enc a b))"
    and i: "rotary_index (fst (pin_isr enc a b)) = rotary_index enc"
    by simp_all
  from Cons.prems(2) have rest: "\<forall>(a, b) \<in> set rs. read_pos a b = 1 \<or> read_pos a b = 2"
    by simp
  from Cons.IH [OF h rest] i r show ?case by simp
qed

lemma half_way_close:
  assumes "half_way enc" and "\<not> paired_edges enc"
  shows "rotary_index (fst (pin_isr enc HIGH HIGH)) = rotary_index enc
       \<and> enc_flags (fst (pin_isr enc HIGH HIGH)) = 0"
  using assms unfolding half_way_def paired_edges_def
  by (elim disjE conjE; simp add: pin_isr_def Let_def bit_simps)

lemma return_clears:
  assumes "read_pos a b = 0" and "enc_prev_pos e \<noteq> 0 \<or> reachable e"
  shows "enc_flags (fst (pin_isr e a b)) = 0"
proof (cases "enc_prev_pos e = 0")
  case True
  with assms(2) have "enc_flags e = 0" by (simp add: reachable_idle_flags)
  with True assms(1) show ?thesis by (simp add: pin_isr_def Let_def)
next
  case False
  with assms(1) show ?thesis by (simp add: pin_isr_def Let_def)
qed

text \<open>
  C2. From any state the decoder can be in with the pins idle, a run of readings that are
  all 01 or 10 (so 11 is never reached) followed by the return to 00 leaves the counter
  unchanged and the flags cleared, provided the closing edge does not pair with the
  recorded first edge. And whenever the handler reads 00, in a state the decoder can be
  in or in any state whose previous pin state is not 00, the flags are zero afterwards,
  whether or not a step was counted.
\<close>

theorem bounce_rejected:
  assumes "reachable enc" and "enc_prev_pos enc = 0"
    and "\<forall>(a, b) \<in> set xs. read_pos a b = 1 \<or> read_pos a b = 2"
    and "\<not> paired_edges (run_isr enc xs)"
  shows "rotary_index (run_isr enc (xs @ [st00])) = rotary_index enc
       \<and> enc_flags (run_isr enc (xs @ [st00])) = 0
       \<and> (\<forall>e a b. read_pos a b = 0 \<and> (enc_prev_pos e \<noteq> 0 \<or> reachable e)
             \<longrightarrow> enc_flags (fst (pin_isr e a b)) = 0)"
proof -
  from assms(1,2) have "half_way enc" by (simp add: half_way_def reachable_idle_flags)
  from half_way_run [OF this assms(3)]
  have h: "half_way (run_isr enc xs)" and i: "rotary_index (run_isr enc xs) = rotary_index enc"
    by simp_all
  from half_way_close [OF h assms(4)] i
  have "rotary_index (run_isr enc (xs @ [st00])) = rotary_index enc
       \<and> enc_flags (run_isr enc (xs @ [st00])) = 0"
    by (simp add: run_isr_append st00_def)
  then show ?thesis by (simp add: return_clears)
qed

theorem bounce_rejected_witness:
  "reachable (RotaryEncoder_init 18 19 4 HIGH HIGH)
   \<and> enc_prev_pos (RotaryEncoder_init 18 19 4 HIGH HIGH) = 0
   \<and> \<not> paired_edges (run_isr (RotaryEncoder_init 18 19 4 HIGH HIGH) [st01, st10, st01])
   \<and> rotary_index (run_isr (RotaryEncoder_init 18 19 4 HIGH HIGH) ([st01, st10, st01] @ [st00])) = 0
   \<and> enc_flags (run_isr (RotaryEncoder_init 18 19 4 HIGH HIGH) ([st01, st10, st01] @ [st00])) = 0"
proof -
  let ?e = "RotaryEncoder_init 18 19 4 HIGH HIGH"
  have r: "reachable ?e" by (rule reachable.constructed)
  have p: "enc_prev_pos ?e = 0" by (simp add: RotaryEncoder_init_def)
  have x: "\<forall>(a, b) \<in> set [st01, st10, st01]. read_pos a b = 1 \<or> read_pos a b = 2"
    by (simp add: st01_def st10_def)
  have n: "\<not> paired_edges (run_isr ?e [st01, st10, st01])"
    by (simp add: paired_edges_def RotaryEncoder_init_def st01_def st10_def pin_isr_def
        Let_def bit_simps)
  from bounce_rejected [OF r p x n] r p n show ?thesis
    by (simp add: RotaryEncoder_init_def)
qed

lemma run_turns_Nil: "run_turns enc [] = enc"
  by (simp add: run_turns_def)

lemma run_turns_Cons: "run_turns enc (t # ts) = run_turns (run_isr enc (turn_readings t)) ts"
  by (simp add: run_turns_def run_isr_append)

lemma run_turns_state:
  assumes "enc_prev_pos enc = 0" and "enc_flags enc = 0"
  shows "enc_prev_pos (run_turns enc ts) = 0 \<and> enc_flags (run_turns enc ts) = 0
       \<and> max_index (run_turns enc ts) = max_index enc
       \<and> rotary_index (run_turns enc ts)
           = rotary_index enc + of_nat (count_list ts CW) - of_nat (count_list ts CCW)"
  using assms
proof (induction ts arbitrary: enc)
  case Nil
  then show ?case by (simp add: run_turns_Nil)
next
  case (Cons t ts)
  let ?e = "run_isr enc (turn_readings t)"
  have e: "enc_prev_pos ?e = 0 \<and> enc_flags ?e = 0 \<and> max_index ?e = max_index enc
      \<and> rotary_index ?e = (case t of CW \<Rightarrow> rotary_index enc + 1 | CCW \<Rightarrow> rotary_index enc - 1)"
    using Cons.prems by (cases t) (simp_all add: cw_turn ccw_turn)
  from e have p: "enc_prev_pos ?e = 0" and f: "enc_flags ?e = 0" by simp_all
  from Cons.IH [OF p f] e show ?case
    by (cases t) (simp_all add: run_turns_Cons)
qed

lemma uint_count_diff:
  "uint (of_nat n - of_nat m :: byte) = (int n - int m) mod 256"
proof -
  have "(of_nat n - of_nat m :: byte) = word_of_int (int n - int m)" by simp
  then show ?thesis by (simp only: uint_word_of_int) simp
qed

text \<open>
  What the read returns after clean quarter-turns: for a decoder constructed with the pins
  idle and \<^verbatim>\<open>max_index_\<close> at least 1, after any interleaving of N clockwise and M
  counter-clockwise ones, ((N - M) mod 256) mod \<^verbatim>\<open>max_index_\<close>. This is
  (N - M) mod \<^verbatim>\<open>max_index_\<close> when \<^verbatim>\<open>max_index_\<close> divides 256, as the 4 of the sketch does.
\<close>

lemma getIndex_after_turns:
  assumes "mx \<noteq> 0"
  shows "map_option uint (getIndex (run_turns (RotaryEncoder_init pa pb mx HIGH HIGH) ts))
           = Some (((int (count_list ts CW) - int (count_list ts CCW)) mod 256) mod uint mx)
       \<and> (uint mx dvd 256 \<longrightarrow>
           map_option uint (getIndex (run_turns (RotaryEncoder_init pa pb mx HIGH HIGH) ts))
             = Some ((int (count_list ts CW) - int (count_list ts CCW)) mod uint mx))"
proof -
  let ?e = "RotaryEncoder_init pa pb mx HIGH HIGH"
  have p: "enc_prev_pos ?e = 0" and f: "enc_flags ?e = 0"
    by (simp_all add: RotaryEncoder_init_def)
  from run_turns_state [OF p f, of ts]
  have m: "max_index (run_turns ?e ts) = mx"
    and i: "rotary_index (run_turns ?e ts) = of_nat (count_list ts CW) - of_nat (count_list ts CCW)"
    by (simp_all add: RotaryEncoder_init_def)
  have g: "map_option uint (getIndex (run_turns ?e ts))
           = Some (((int (count_list ts CW) - int (count_list ts CCW)) mod 256) mod uint mx)"
    using assms by (simp add: getIndex_def mod_u8_def m i uint_mod_distrib uint_count_diff)
  show ?thesis
  proof (intro conjI impI)
    show "map_option uint (getIndex (run_turns ?e ts))
           = Some (((int (count_list ts CW) - int (count_list ts CCW)) mod 256) mod uint mx)"
      by (rule g)
  next
    assume d: "uint mx dvd 256"
    have "((int (count_list ts CW) - int (count_list ts CCW)) mod 256) mod uint mx
            = (int (count_list ts CW) - int (count_list ts CCW)) mod uint mx"
      by (rule mod_mod_cancel [OF d])
    with g show "map_option uint (getIndex (run_turns ?e ts))
           = Some ((int (count_list ts CW) - int (count_list ts CCW)) mod uint mx)"
      by (simp only:)
  qed
qed

text \<open>
  C3, at the failing input. A decoder is constructed with the pins idle and
  \<^verbatim>\<open>max_index_\<close> 3, and one counter-clockwise quarter-turn is made (N = 0, M = 1). The step
  is accepted: the 8-bit counter goes from 0 to 255. \<^verbatim>\<open>getIndex\<close> returns 255 mod 3 = 0,
  the index it returned before the step, where (N - M) mod 3 is 2.
\<close>

theorem getIndex_wraps_at_256:
  "getIndex (RotaryEncoder_init 18 19 3 HIGH HIGH) = Some 0
   \<and> rotary_index (run_turns (RotaryEncoder_init 18 19 3 HIGH HIGH) [CCW]) = 255
   \<and> getIndex (run_turns (RotaryEncoder_init 18 19 3 HIGH HIGH) [CCW]) = Some 0
   \<and> (int (count_list [CCW] CW) - int (count_list [CCW] CCW)) mod uint (3 :: byte) = 2"
  by (simp add: run_turns_def ccw_turn RotaryEncoder_init_def getIndex_def mod_u8_def)

section \<open>Properties of the potentiometer reader\<close>

lemma raw_bin_range:
  fixes r :: int
  assumes "0 \<le> r" and "r < 2 ^ ADC_BITS"
  shows "0 \<le> drop_bit ADC_TO_BIN_SHIFT r \<and> drop_bit ADC_TO_BIN_SHIFT r \<le> 31"
proof -
  from assms have "0 \<le> r div 32 \<and> r div 32 \<le> 31"
    by (simp add: ADC_BITS_def) presburger
  then show ?thesis
    by (simp add: ADC_BITS_def ADC_TO_BIN_SHIFT_def LOG_BIN_SIZE_def drop_bit_eq_div)
qed

lemma update_current_bin:
  "current_bin (fst (update pot r)) = current_bin pot
   \<or> current_bin (fst (update pot r)) = drop_bit ADC_TO_BIN_SHIFT r"
  by (simp add: update_def Let_def)

lemma update_initialises:
  "current_bin pot = NO_CHANGE \<Longrightarrow> current_bin (fst (update pot r)) = drop_bit ADC_TO_BIN_SHIFT r"
  by (simp add: update_def Let_def)

lemma run_updates_observed:
  assumes "\<exists>r \<in> A. current_bin pot = drop_bit ADC_TO_BIN_SHIFT r"
  shows "\<exists>r \<in> A \<union> set rs. current_bin (run_updates pot rs) = drop_bit ADC_TO_BIN_SHIFT r"
  using assms
proof (induction rs arbitrary: pot A)
  case Nil
  then show ?case by simp
next
  case (Cons x xs)
  from Cons.prems update_current_bin [of pot x]
  have "\<exists>r \<in> insert x A. current_bin (fst (update pot x)) = drop_bit ADC_TO_BIN_SHIFT r"
    by auto
  from Cons.IH [OF this] show ?case by simp
qed

text \<open>
  On an initialised reader, a reading with another raw bin is accepted exactly when it
  lies beyond the margin around the current bin; then the raw bin is stored and returned.
\<close>

lemma update_beyond_margin:
  assumes "current_bin pot \<noteq> NO_CHANGE" and "drop_bit ADC_TO_BIN_SHIFT r \<noteq> current_bin pot"
  shows "update pot r =
     (if r < push_bit ADC_TO_BIN_SHIFT (current_bin pot) - HYSTERESIS
         \<or> r > push_bit ADC_TO_BIN_SHIFT (current_bin pot) + (BIN_SIZE - 1) + HYSTERESIS
      then (pot\<lparr>current_bin := drop_bit ADC_TO_BIN_SHIFT r\<rparr>, Some (drop_bit ADC_TO_BIN_SHIFT r))
      else (pot, None))"
  using assms by (simp add: update_def Let_def)

text \<open>
  The calls of \<^verbatim>\<open>update\<close> that end without a \<^verbatim>\<open>return\<close>: exactly those on an initialised
  reader where the raw bin differs and the reading is within the margin of the current bin.
\<close>

lemma update_without_return:
  "snd (update pot r) = None \<longleftrightarrow>
     current_bin pot \<noteq> NO_CHANGE \<and> drop_bit ADC_TO_BIN_SHIFT r \<noteq> current_bin pot
     \<and> push_bit ADC_TO_BIN_SHIFT (current_bin pot) - HYSTERESIS \<le> r
     \<and> r \<le> push_bit ADC_TO_BIN_SHIFT (current_bin pot) + (BIN_SIZE - 1) + HYSTERESIS"
  by (auto simp add: update_def Let_def)

text \<open>
  C4, at the failing input. After the first call with reading 500 the current bin is 15,
  the code points 480 to 511. The reading 515 has raw bin 16 and is within the margin of
  8, so the bin is kept; but the call reaches the end of \<^verbatim>\<open>update\<close> without a
  \<^verbatim>\<open>return\<close> statement: no value is returned, and in particular not \<^verbatim>\<open>NO_CHANGE\<close>.
\<close>

theorem update_reaches_end_without_return:
  "update (fst (update (Potentiometer_init 0) 500)) 515 = (\<lparr>current_bin = 15, pin = 0\<rparr>, None)
   \<and> drop_bit ADC_TO_BIN_SHIFT (515 :: int) = 16
   \<and> Some NO_CHANGE \<noteq> (None :: int option)"
  by (simp add: Potentiometer_init_def update_def Let_def NO_CHANGE_def INT_MAX_def
        ADC_TO_BIN_SHIFT_def ADC_BITS_def LOG_BIN_SIZE_def BIN_SIZE_def HYSTERESIS_def
        drop_bit_eq_div push_bit_eq_mult)

text \<open>
  C10. After any non-empty sequence of calls of \<^verbatim>\<open>update\<close> on a freshly constructed reader,
  with readings in [0, 2^ADC\_BITS - 1], the current bin lies in
  [0, 2^(ADC\_BITS - LOG\_BIN\_SIZE) - 1], that is [0, 31], is the raw bin of one of the
  readings seen, and is not \<^verbatim>\<open>NO_CHANGE\<close>.
\<close>

theorem current_bin_in_range:
  assumes "rs \<noteq> []" and "\<forall>r \<in> set rs. 0 \<le> r \<and> r < 2 ^ ADC_BITS"
  shows "0 \<le> current_bin (run_updates (Potentiometer_init p) rs)
       \<and> current_bin (run_updates (Potentiometer_init p) rs) \<le> 2 ^ (ADC_BITS - LOG_BIN_SIZE) - 1
       \<and> current_bin (run_updates (Potentiometer_init p) rs) \<le> 31
       \<and> (\<exists>r \<in> set rs. current_bin (run_updates (Potentiometer_init p) rs)
                          = drop_bit ADC_TO_BIN_SHIFT r)
       \<and> current_bin (run_updates (Potentiometer_init p) rs) \<noteq> NO_CHANGE"
proof -
  from assms(1) obtain x xs where rs: "rs = x # xs" by (cases rs) auto
  let ?p1 = "fst (update (Potentiometer_init p) x)"
  have "current_bin ?p1 = drop_bit ADC_TO_BIN_SHIFT x"
    by (rule update_initialises) (simp add: Potentiometer_init_def)
  then have "\<exists>r \<in> {x}. current_bin ?p1 = drop_bit ADC_TO_BIN_SHIFT r" by simp
  from run_updates_observed [OF this, of xs] rs
  obtain r where r: "r \<in> set rs"
    and c: "current_bin (run_updates (Potentiometer_init p) rs) = drop_bit ADC_TO_BIN_SHIFT r"
    by auto
  from r assms(2) have "0 \<le> r" and "r < 2 ^ ADC_BITS" by auto
  from raw_bin_range [OF this] c
  have b: "0 \<le> current_bin (run_updates (Potentiometer_init p) rs)"
        "current_bin (run_updates (Potentiometer_init p) rs) \<le> 31"
    by simp_all
  from b have "current_bin (run_updates (Potentiometer_init p) rs) \<le> 2 ^ (ADC_BITS - LOG_BIN_SIZE) - 1"
    by (simp add: ADC_BITS_def LOG_BIN_SIZE_def)
  moreover from b have "current_bin (run_updates (Potentiometer_init p) rs) \<noteq> NO_CHANGE"
    by (simp add: NO_CHANGE_def INT_MAX_def)
  ultimately show ?thesis using b r c by blast
qed

theorem current_bin_in_range_witness:
  "[500, 503, 515, 560] \<noteq> ([] :: int list)
   \<and> current_bin (run_updates (Potentiometer_init 0) [500, 503, 515, 560]) = 17
   \<and> 0 \<le> current_bin (run_updates (Potentiometer_init 0) [500, 503, 515, 560])
   \<and> current_bin (run_updates (Potentiometer_init 0) [500, 503, 515, 560]) \<le> 31"
proof -
  have ne: "[500, 503, 515, 560] \<noteq> ([] :: int list)" by simp
  have rg: "\<forall>r \<in> set [500, 503, 515, 560 :: int]. 0 \<le> r \<and> r < 2 ^ ADC_BITS"
    by (simp add: ADC_BITS_def)
  have v: "current_bin (run_updates (Potentiometer_init 0) [500, 503, 515, 560]) = 17"
    by (simp add: Potentiometer_init_def update_def Let_def NO_CHANGE_def INT_MAX_def
        ADC_TO_BIN_SHIFT_def ADC_BITS_def LOG_BIN_SIZE_def BIN_SIZE_def HYSTERESIS_def
        drop_bit_eq_div push_bit_eq_mult)
  from current_bin_in_range [OF ne rg, of 0] v show ?thesis by simp
qed

section \<open>Properties of the instance pointer\<close>

text \<open>
  C5, as the claim states it, fails: constructing a second encoder (at address 2) while
  the first (at address 1) is live completes like any other construction. Afterwards both
  objects are live and \<^verbatim>\<open>instance_\<close> still points to the first.
\<close>

theorem second_instance_constructed:
  "instance_ptr (RotaryEncoder_ctor (RotaryEncoder_ctor startup 1 18 19 4 all_high) 2 20 21 4 all_high) = Some 1
   \<and> objects (RotaryEncoder_ctor (RotaryEncoder_ctor startup 1 18 19 4 all_high) 2 20 21 4 all_high) 1
        = Some (RotaryEncoder_init 18 19 4 HIGH HIGH)
   \<and> objects (RotaryEncoder_ctor (RotaryEncoder_ctor startup 1 18 19 4 all_high) 2 20 21 4 all_high) 2
        = Some (RotaryEncoder_init 20 21 4 HIGH HIGH)"
  by (simp add: RotaryEncoder_ctor_def startup_def all_high_def)

lemma pin_isr_pins:
  "pin_a (fst (pin_isr enc a b)) = pin_a enc \<and> pin_b (fst (pin_isr enc a b)) = pin_b enc"
  by (simp add: pin_isr_def Let_def split_beta)

lemma run_static_serves_instance:
  assumes "instance_ptr p = Some first" and "objects p first = Some enc"
  shows "\<exists>q. run_static p drs = Some q
           \<and> instance_ptr q = Some first
           \<and> objects q first = Some (run_isr enc (map (pins_read enc) drs))
           \<and> (\<forall>a. a \<noteq> first \<longrightarrow> objects q a = objects p a)
           \<and> attached q = attached p"
  using assms
proof (induction drs arbitrary: p enc)
  case Nil
  then show ?case by simp
next
  case (Cons d drs)
  let ?enc1 = "fst (pin_isr enc (d (pin_a enc)) (d (pin_b enc)))"
  let ?p1 = "p\<lparr>objects := (objects p)(first \<mapsto> ?enc1)\<rparr>"
  have st: "pin_isr_static p d
              = Some (?p1, snd (pin_isr enc (d (pin_a enc)) (d (pin_b enc))))"
    using Cons.prems by (simp add: pin_isr_static_def split_beta Let_def)
  have i1: "instance_ptr ?p1 = Some first" using Cons.prems(1) by simp
  have o1: "objects ?p1 first = Some ?enc1" by simp
  from Cons.IH [OF i1 o1]
  obtain q where q: "run_static ?p1 drs = Some q"
    and qi: "instance_ptr q = Some first"
    and qf: "objects q first = Some (run_isr ?enc1 (map (pins_read ?enc1) drs))"
    and qo: "\<forall>a. a \<noteq> first \<longrightarrow> objects q a = objects ?p1 a"
    and qa: "attached q = attached ?p1"
    by blast
  have pr: "pins_read ?enc1 = pins_read enc"
    by (rule ext) (simp add: pins_read_def pin_isr_pins)
  have "run_static p (d # drs) = Some q" using st q by simp
  moreover have "objects q first = Some (run_isr enc (map (pins_read enc) (d # drs)))"
    using qf pr by (simp add: pins_read_def)
  moreover have "\<forall>a. a \<noteq> first \<longrightarrow> objects q a = objects p a" using qo by simp
  moreover have "attached q = attached p" using qa by simp
  ultimately show ?case using qi by blast
qed

text \<open>
  C5, amended. Constructing a further encoder while \<^verbatim>\<open>instance_\<close> points to a live one
  does not fail: the new object is constructed and its interrupts are attached, the first
  object is left as it was, and \<^verbatim>\<open>instance_\<close> keeps pointing to it. After any number of
  interrupts that follow, \<^verbatim>\<open>instance_\<close> still points to the first object, every one of
  them was handled on the first object, with the readings of its own two pins, and the
  new object is as its constructor left it.
\<close>

theorem first_writer_wins:
  assumes "instance_ptr p = Some first" and "objects p first = Some enc" and "this \<noteq> first"
  shows "instance_ptr (RotaryEncoder_ctor p this pa pb mx dr) = Some first
       \<and> objects (RotaryEncoder_ctor p this pa pb mx dr) first = Some enc
       \<and> objects (RotaryEncoder_ctor p this pa pb mx dr) this
            = Some (RotaryEncoder_init pa pb mx (dr pa) (dr pb))
       \<and> {pa, pb} \<subseteq> attached (RotaryEncoder_ctor p this pa pb mx dr)
       \<and> (\<exists>q. run_static (RotaryEncoder_ctor p this pa pb mx dr) drs = Some q
             \<and> instance_ptr q = Some first
             \<and> objects q first = Some (run_isr enc (map (pins_read enc) drs))
             \<and> objects q this = Some (RotaryEncoder_init pa pb mx (dr pa) (dr pb)))"
proof -
  let ?c = "RotaryEncoder_ctor p this pa pb mx dr"
  have i: "instance_ptr ?c = Some first" using assms(1) by (simp add: RotaryEncoder_ctor_def)
  have f: "objects ?c first = Some enc" using assms(2,3) by (simp add: RotaryEncoder_ctor_def)
  have t: "objects ?c this = Some (RotaryEncoder_init pa pb mx (dr pa) (dr pb))"
    by (simp add: RotaryEncoder_ctor_def)
  have a: "{pa, pb} \<subseteq> attached ?c" by (simp add: RotaryEncoder_ctor_def)
  from run_static_serves_instance [OF i f, of drs]
  obtain q where q: "run_static ?c drs = Some q" and qi: "instance_ptr q = Some first"
    and qf: "objects q first = Some (run_isr enc (map (pins_read enc) drs))"
    and qo: "\<forall>a. a \<noteq> first \<longrightarrow> objects q a = objects ?c a"
    by blast
  from qo assms(3) t have "objects q this = Some (RotaryEncoder_init pa pb mx (dr pa) (dr pb))"
    by simp
  with q qi qf have "\<exists>q. run_static ?c drs = Some q
             \<and> instance_ptr q = Some first
             \<and> objects q first = Some (run_isr enc (map (pins_read enc) drs))
             \<and> objects q this = Some (RotaryEncoder_init pa pb mx (dr pa) (dr pb))"
    by blast
  with i f t a show ?thesis by blast
qed

theorem first_writer_wins_witness:
  "instance_ptr (RotaryEncoder_ctor (RotaryEncoder_ctor startup 1 18 19 4 all_high) 2 20 21 4 all_high) = Some 1
   \<and> objects (RotaryEncoder_ctor (RotaryEncoder_ctor startup 1 18 19 4 all_high) 2 20 21 4 all_high) 2
        = Some (RotaryEncoder_init 20 21 4 HIGH HIGH)
   \<and> (\<exists>q. run_static (RotaryEncoder_ctor (RotaryEncoder_ctor startup 1 18 19 4 all_high) 2 20 21 4 all_high)
              [all_high, all_high] = Some q
         \<and> instance_ptr q = Some 1
         \<and> objects q 2 = Some (RotaryEncoder_init 20 21 4 HIGH HIGH))"
proof -
  let ?p = "RotaryEncoder_ctor startup 1 18 19 4 all_high"
  have i: "instance_ptr ?p = Some 1" by (simp add: RotaryEncoder_ctor_def startup_def)
  have o: "objects ?p 1 = Some (RotaryEncoder_init 18 19 4 HIGH HIGH)"
    by (simp add: RotaryEncoder_ctor_def startup_def all_high_def)
  have n: "(2 :: nat) \<noteq> 1" by simp
  from first_writer_wins [OF i o n, of 20 21 4 all_high "[all_high, all_high]"]
  have "instance_ptr (RotaryEncoder_ctor ?p 2 20 21 4 all_high) = Some 1"
    and "objects (RotaryEncoder_ctor ?p 2 20 21 4 all_high) 2
           = Some (RotaryEncoder_init 20 21 4 (all_high 20) (all_high 21))"
    and "\<exists>q. run_static (RotaryEncoder_ctor ?p 2 20 21 4 all_high) [all_high, all_high] = Some q
           \<and> instance_ptr q = Some 1
           \<and> objects q 1 = Some (run_isr (RotaryEncoder_init 18 19 4 HIGH HIGH)
                                   (map (pins_read (RotaryEncoder_init 18 19 4 HIGH HIGH))
                                      [all_high, all_high]))
           \<and> objects q 2 = Some (RotaryEncoder_init 20 21 4 (all_high 20) (all_high 21))"
    by blast+
  then show ?thesis by (auto simp add: all_high_def)
qed

section \<open>Properties of the interval computation\<close>

lemma interval_millis_zero_reading: "interval_divisor 0 = 1 \<and> interval_millis 0 = Some 1000"
  by (simp add: interval_divisor_def interval_millis_def to_int_def)

text \<open>
  C6, at the failing input. With the speed reading 1 the divisor is \<^verbatim>\<open>log(1)\<close>, which is
  zero: the quotient \<^verbatim>\<open>1000UL/0.0\<close> is a division by zero and the interval has no
  defined value.
\<close>

theorem interval_divides_by_zero:
  "interval_divisor 1 = 0 \<and> interval_millis 1 = None"
  by (simp add: interval_divisor_def interval_millis_def)

lemma interval_divisor_zero_iff: "interval_divisor freq = 0 \<longleftrightarrow> freq = 1"
proof (cases "freq = 0")
  case True
  then show ?thesis by (simp add: interval_divisor_def)
next
  case False
  then have "0 < unat freq" by (simp only: unat_gt_0 not_False_eq_True)
  then have pos: "0 < real (unat freq)" by (simp only: of_nat_0_less_iff)
  have "(ln (real (unat freq)) = 0) = (real (unat freq) = 1)"
    using pos by (rule ln_eq_zero_iff)
  also have "\<dots> = (unat freq = 1)" by (simp only: of_nat_eq_1_iff)
  also have "\<dots> = (freq = 1)" by (simp add: word_unat_eq_iff)
  finally show ?thesis using False by (simp add: interval_divisor_def)
qed

lemma interval_divisor_mono:
  assumes "2 \<le> f1" and "f1 \<le> f2"
  shows "0 < interval_divisor f1 \<and> interval_divisor f1 \<le> interval_divisor f2"
proof -
  from assms have u: "2 \<le> unat f1" "unat f1 \<le> unat f2"
    by (simp_all add: word_le_nat_alt)
  then have n: "f1 \<noteq> 0" "f2 \<noteq> 0" by auto
  from u have r: "1 < real (unat f1)" "real (unat f1) \<le> real (unat f2)"
    by linarith+
  from r have "0 < ln (real (unat f1))" by (simp only: ln_gt_zero)
  moreover from r have "ln (real (unat f1)) \<le> ln (real (unat f2))"
    by (intro ln_mono) linarith+ 
  ultimately show ?thesis using n by (simp add: interval_divisor_def)
qed

lemma ln_ge_half:
  fixes x :: real
  assumes "2 \<le> x"
  shows "1 / 2 \<le> ln x"
proof -
  from assms have pos: "0 < 1 / x" by simp
  from ln_le_minus_one [OF pos] have "ln (1 / x) \<le> 1 / x - 1" .
  moreover from assms have "ln (1 / x) = - ln x" by (simp add: ln_div)
  moreover from assms have "1 / x \<le> 1 / 2" by (simp add: field_simps)
  ultimately show ?thesis by linarith
qed

lemma interval_millis_defined:
  assumes "2 \<le> freq"
  shows "interval_millis freq = Some (nat \<lfloor>1000 / ln (real (unat freq))\<rfloor>)"
proof -
  from assms have u: "2 \<le> unat freq" by (simp add: word_le_nat_alt)
  then have n: "freq \<noteq> 0" by auto
  from u have "2 \<le> real (unat freq)" by linarith
  from ln_ge_half [OF this] have h: "1 / 2 \<le> ln (real (unat freq))" .
  then have p: "0 < ln (real (unat freq))" by linarith
  from p have q0: "0 \<le> 1000 / ln (real (unat freq))" by simp
  from h p have "1000 / ln (real (unat freq)) \<le> 1000 / (1 / 2)"
    by (intro divide_left_mono) simp_all
  then have q1: "1000 / ln (real (unat freq)) < 2 ^ 32" by simp
  from q0 have q2: "- 1 < 1000 / ln (real (unat freq))" by linarith
  have d: "interval_divisor freq = ln (real (unat freq))"
    using n by (simp add: interval_divisor_def)
  from p have dn: "ln (real (unat freq)) \<noteq> 0" by simp
  show ?thesis
    unfolding interval_millis_def Let_def d to_int_def
    using dn q0 q1 q2 by (simp only: if_False if_True simp_thms)
qed

lemma interval_millis_antitone:
  assumes "2 \<le> f1" and "f1 \<le> f2"
  shows "\<exists>m1 m2. interval_millis f1 = Some m1 \<and> interval_millis f2 = Some m2 \<and> m2 \<le> m1"
proof -
  from assms have f2: "2 \<le> f2" by simp
  from interval_divisor_mono [OF assms] assms f2
  have p: "0 < ln (real (unat f1))" and le: "ln (real (unat f1)) \<le> ln (real (unat f2))"
    by (auto simp add: interval_divisor_def split: if_splits)
  from p le have "1000 / ln (real (unat f2)) \<le> 1000 / ln (real (unat f1))"
    by (intro divide_left_mono) (simp_all add: mult_pos_pos)
  then have "nat \<lfloor>1000 / ln (real (unat f2))\<rfloor> \<le> nat \<lfloor>1000 / ln (real (unat f1))\<rfloor>"
    by (intro nat_mono floor_mono)
  with interval_millis_defined [OF assms(1)] interval_millis_defined [OF f2]
  show ?thesis by blast
qed

section \<open>Properties of the patterns and of the control loop\<close>

lemma fill_from_pixels:
  "fill_from i s c = s\<lparr>pixels := take i (pixels s) @ replicate (length (pixels s) - i) c\<rparr>"
proof (induction i s c rule: fill_from.induct)
  case (1 i s c)
  show ?case
  proof (cases "i < numPixels s")
    case True
    then have l: "i < length (pixels s)" by (simp add: numPixels_def)
    have "fill_from i s c = fill_from (Suc i) (setPixelColor s i c) c"
      using True by (simp add: fill_from.simps [of i])
    also have "\<dots> = (setPixelColor s i c)\<lparr>pixels :=
        take (Suc i) (pixels (setPixelColor s i c))
          @ replicate (length (pixels (setPixelColor s i c)) - Suc i) c\<rparr>"
      using True by (rule "1.IH")
    also have "\<dots> = s\<lparr>pixels := take i (pixels s) @ replicate (length (pixels s) - i) c\<rparr>"
    proof -
      have "take (Suc i) ((pixels s)[i := c]) = take i (pixels s) @ [c]"
        using l by (simp add: take_Suc_conv_app_nth)
      moreover have "replicate (length (pixels s) - i) c = c # replicate (length (pixels s) - Suc i) c"
        using l by (cases "length (pixels s) - i") (simp_all add: Suc_diff_Suc)
      ultimately show ?thesis using True by (simp add: setPixelColor_def)
    qed
    finally show ?thesis .
  next
    case False
    then show ?thesis by (simp add: fill_from.simps [of i] numPixels_def)
  qed
qed

lemma fill_from_0: "fill_from 0 s c = s\<lparr>pixels := replicate (length (pixels s)) c\<rparr>"
  by (simp add: fill_from_pixels)

lemma updateStrip_other_channel:
  "strip_nr \<noteq> 0 \<Longrightarrow> updateStrip prog s strip_nr brightness freq = (prog, s)"
  by (cases prog) simp_all

lemma updateStrip_first_channel:
  assumes "length (pixels s) = length (pixels s')"
  shows "pixels (snd (updateStrip prog s 0 brightness freq))
           = pixels (snd (updateStrip prog s' 0 brightness freq))"
  using assms by (cases prog) (simp_all add: Let_def fill_from_0)

lemma updateStrip_bus:
  "bus (snd (updateStrip prog s n brightness freq)) = bus s"
  by (cases prog) (simp_all add: Let_def fill_from_0)

lemma updateStrip_stateless:
  "order_independent prog \<Longrightarrow> fst (updateStrip prog s n brightness freq) = prog"
  by (cases prog) (simp_all add: Let_def)

lemma channel_nr_nonzero:
  assumes "0 < i" and "i < nr_strips"
  shows "(of_nat i :: byte) \<noteq> 0"
proof -
  from assms(2) have "i < 2 ^ LENGTH(8)" by (simp add: nr_strips_def)
  with assms(1) show ?thesis by (rule of_nat_neq_0)
qed

lemma updateStrip_fills:
  "\<exists>c. pixels (snd (updateStrip prog s 0 brightness freq)) = replicate (length (pixels s)) c"
  by (cases prog) (auto simp add: Let_def fill_from_0)

lemma strips_loop_rest:
  assumes "0 < i" and "i \<le> nr_strips"
  shows "fst (strips_loop i prog s brightness freq tr) = prog
       \<and> pixels (fst (snd (strips_loop i prog s brightness freq tr))) = pixels s
       \<and> snd (snd (strips_loop i prog s brightness freq tr))
           = tr @ concat (map (\<lambda>j. channel_calls j prog brightness freq (pixels s))
                             [i..<nr_strips])"
  using assms
proof (induction "nr_strips - i" arbitrary: i s tr)
  case 0
  then have "\<not> i < nr_strips" by simp
  then show ?case by (simp add: strips_loop.simps [of i])
next
  case (Suc k)
  then have lt: "i < nr_strips" by simp
  let ?s1 = "updatePins s (led_data_pins ! i) (led_clk_pins ! i)"
  let ?s3 = "setBrightness ?s1 (brightness_scale brightness)"
  let ?tr1 = "tr @ channel_calls i prog brightness freq (pixels s)"
  have nz: "(of_nat i :: byte) \<noteq> 0" using Suc.prems(1) lt by (rule channel_nr_nonzero)
  have step: "strips_loop i prog s brightness freq tr
                = strips_loop (Suc i) prog ?s3 brightness freq ?tr1"
    using lt Suc.prems(1) nz
    by (simp add: strips_loop.simps [of i] updateStrip_other_channel Let_def
        brightness_scale_def channel_calls_def channel_bus_def show_strip_def
        setBrightness_def updatePins_def)
  have k: "k = nr_strips - Suc i" using Suc.hyps(2) by simp
  have le: "Suc i \<le> nr_strips" using lt by simp
  from Suc.hyps(1) [OF k _ le, of ?s3 ?tr1]
  have ih: "fst (strips_loop (Suc i) prog ?s3 brightness freq ?tr1) = prog
       \<and> pixels (fst (snd (strips_loop (Suc i) prog ?s3 brightness freq ?tr1))) = pixels ?s3
       \<and> snd (snd (strips_loop (Suc i) prog ?s3 brightness freq ?tr1))
           = ?tr1 @ concat (map (\<lambda>j. channel_calls j prog brightness freq (pixels ?s3))
                             [Suc i..<nr_strips])"
    by simp
  have px: "pixels ?s3 = pixels s" by (simp add: setBrightness_def updatePins_def)
  have up: "[i..<nr_strips] = i # [Suc i..<nr_strips]" using lt by (simp add: upt_conv_Cons)
  from ih show ?case by (simp add: step px up)
qed

lemma strips_loop_tick:
  "fst (strips_loop 0 prog s brightness freq []) = fst (updateStrip prog (updatePins0 s) 0 brightness freq)
   \<and> pixels (fst (snd (strips_loop 0 prog s brightness freq [])))
       = pixels (snd (updateStrip prog (updatePins0 s) 0 brightness freq))
   \<and> snd (snd (strips_loop 0 prog s brightness freq []))
       = concat (map (\<lambda>j. channel_calls j
                        (if j = 0 then prog
                         else fst (updateStrip prog (updatePins0 s) 0 brightness freq))
                        brightness freq
                        (pixels (snd (updateStrip prog (updatePins0 s) 0 brightness freq))))
                   [0..<nr_strips])"
proof -
  let ?s1 = "updatePins0 s"
  let ?p1 = "fst (updateStrip prog ?s1 0 brightness freq)"
  let ?s2 = "snd (updateStrip prog ?s1 0 brightness freq)"
  let ?s3 = "setBrightness ?s2 (brightness_scale brightness)"
  let ?tr1 = "channel_calls 0 prog brightness freq (pixels ?s2)"
  have b: "bus ?s2 = None" by (simp add: updateStrip_bus updatePins0_def)
  have step: "strips_loop 0 prog s brightness freq []
                = strips_loop (Suc 0) ?p1 ?s3 brightness freq ?tr1"
    using b
    by (simp add: strips_loop.simps [of 0] Let_def split_beta nr_strips_def
        brightness_scale_def channel_calls_def channel_bus_def show_strip_def
        setBrightness_def updatePins0_def)
  have "0 < Suc 0" and "Suc 0 \<le> nr_strips" by (simp_all add: nr_strips_def)
  from strips_loop_rest [OF this, of ?p1 ?s3 brightness freq ?tr1]
  have r: "fst (strips_loop (Suc 0) ?p1 ?s3 brightness freq ?tr1) = ?p1
       \<and> pixels (fst (snd (strips_loop (Suc 0) ?p1 ?s3 brightness freq ?tr1))) = pixels ?s3
       \<and> snd (snd (strips_loop (Suc 0) ?p1 ?s3 brightness freq ?tr1))
           = ?tr1 @ concat (map (\<lambda>j. channel_calls j ?p1 brightness freq (pixels ?s3))
                             [Suc 0..<nr_strips])" .
  have px: "pixels ?s3 = pixels ?s2" by (simp add: setBrightness_def)
  have up: "[0..<nr_strips] = 0 # [Suc 0..<nr_strips]" by (simp add: nr_strips_def upt_conv_Cons)
  have rest: "map (\<lambda>j. channel_calls j (if j = 0 then prog else ?p1) brightness freq (pixels ?s2))
                  [Suc 0..<nr_strips]
            = map (\<lambda>j. channel_calls j ?p1 brightness freq (pixels ?s2)) [Suc 0..<nr_strips]"
    by (rule map_cong) simp_all
  from r show ?thesis by (simp add: step px up rest)
qed

lemma shown_append: "shown (xs @ ys) = shown xs @ shown ys"
  by (induction xs rule: shown.induct) simp_all

lemma strip_nrs_append: "strip_nrs (xs @ ys) = strip_nrs xs @ strip_nrs ys"
  by (induction xs rule: strip_nrs.induct) simp_all

lemma shown_channels:
  "shown (concat (map (\<lambda>j. channel_calls j (g j) brightness freq px) js))
     = map (\<lambda>j. \<lparr>fr_bus = channel_bus j, fr_pixels = px,
                   fr_brightness = brightness_scale brightness\<rparr>) js"
  by (induction js) (simp_all add: shown_append channel_calls_def)

lemma strip_nrs_channels:
  "strip_nrs (concat (map (\<lambda>j. channel_calls j (g j) brightness freq px) js)) = map of_nat js"
  by (induction js) (simp_all add: strip_nrs_append channel_calls_def)

lemma channel_nrs_below:
  "list_all (\<lambda>n. unat n < nr_strips) (map of_nat [0..<nr_strips] :: byte list)"
  by (simp add: nr_strips_def upt_conv_Cons)

lemma scratch_channels_stateless:
  assumes "order_independent prog"
  shows "scratch_channels js prog own brightness freq
     = map (\<lambda>i. \<lparr>fr_bus = channel_bus i,
                   fr_pixels = pixels (snd (updateStrip prog (own i) 0 brightness freq)),
                   fr_brightness = brightness_scale brightness\<rparr>) js"
proof (induction js)
  case Nil
  show ?case by simp
next
  case (Cons i js)
  have p: "\<And>x. fst (updateStrip prog x 0 brightness freq) = prog"
    using assms by (rule updateStrip_stateless)
  have px: "\<And>x y. length (pixels x) = length (pixels y) \<Longrightarrow>
      pixels (snd (updateStrip prog x 0 brightness freq))
        = pixels (snd (updateStrip prog y 0 brightness freq))"
    by (rule updateStrip_first_channel)
  have a: "\<And>x. pixels (snd (updateStrip prog (updatePins0 x) 0 brightness freq))
            = pixels (snd (updateStrip prog x 0 brightness freq))"
    by (rule px) (simp add: updatePins0_def)
  have b: "\<And>x d c. pixels (snd (updateStrip prog (updatePins x d c) 0 brightness freq))
            = pixels (snd (updateStrip prog x 0 brightness freq))"
    by (rule px) (simp add: updatePins_def)
  have c: "\<And>x. bus (updatePins0 x) = None" "\<And>x d c. bus (updatePins x d c) = Some (d, c)"
    by (simp_all add: updatePins0_def updatePins_def)
  show ?case
    using Cons.IH
    by (simp add: Let_def split_beta p a b c show_strip_def setBrightness_def updateStrip_bus
        channel_bus_def brightness_scale_def)
qed

text \<open>
  The blinker, whose member is toggled by every full computation, is not independent of
  the order: computed from scratch for every channel, the second channel shows the
  opposite of what the shared buffer shows.
\<close>

lemma Color_white_not_black: "Color 255 255 255 \<noteq> Color 0 0 0"
  by (simp add: Color_def)

lemma blinker_depends_on_order:
  assumes "pixels s \<noteq> []" and "numPixels (own 1) = numPixels s"
  shows "map fr_pixels (shown (snd (snd (strips_loop 0 (BlinkerProg on) s brightness freq []))))
           \<noteq> map fr_pixels (render_from_scratch (BlinkerProg on) own brightness freq)"
proof -
  let ?n = "length (pixels s)"
  from assms(1) have n: "0 < ?n" by simp
  have l: "length (pixels (own 1)) = ?n" using assms(2) by (simp add: numPixels_def)
  have "map fr_pixels (shown (snd (snd (strips_loop 0 (BlinkerProg on) s brightness freq []))))
          = replicate nr_strips (pixels (snd (updateStrip (BlinkerProg on) (updatePins0 s) 0 brightness freq)))"
    by (simp add: strips_loop_tick shown_channels comp_def map_replicate_const)
  then have sh: "map fr_pixels (shown (snd (snd (strips_loop 0 (BlinkerProg on) s brightness freq [])))) ! 1
          = replicate ?n (if \<not> on then Color 255 255 255 else Color 0 0 0)"
    by (simp add: nr_strips_def Let_def fill_from_0 updatePins0_def)
  have up: "[0..<nr_strips] = 0 # 1 # [2..<nr_strips]"
    by (simp add: nr_strips_def upt_conv_Cons)
  have sc: "map fr_pixels (render_from_scratch (BlinkerProg on) own brightness freq) ! 1
          = replicate ?n (if on then Color 255 255 255 else Color 0 0 0)"
    using l by (simp add: render_from_scratch_def up Let_def fill_from_0 show_strip_def
        setBrightness_def updatePins0_def updatePins_def)
  have "replicate ?n (if \<not> on then Color 255 255 255 else Color 0 0 0)
          \<noteq> replicate ?n (if on then Color 255 255 255 else Color 0 0 0)"
    using n Color_white_not_black by (cases ?n; cases on) auto
  with sh sc show ?thesis by metis
qed

text \<open>
  C7. In a sketch whose encoder was built with \<^verbatim>\<open>nr_progs\<close> and whose \<^verbatim>\<open>progs\<close> has
  that many entries, every run of \<^verbatim>\<open>loop()\<close> completes, and the calls it makes are, for
  the channels 0, 1, ..., 7 in this order, the block: address the channel; call
  \<^verbatim>\<open>updateStrip\<close> on the active pattern (the entry of \<^verbatim>\<open>progs\<close> the encoder position
  selects; from the second channel on with the members the first call left) with the
  channel index and the two readings; set the brightness scaled down from the brightness
  reading; show the buffer on that channel. The buffer shown is the one the active
  pattern's call for the first channel filled, every pixel of it with one colour. The
  pattern is thus called once per channel, with the indices 0 to 7 ascending, all below
  \<^verbatim>\<open>nr_strips\<close>; afterwards \<^verbatim>\<open>which_prog\<close> is the position and the active entry of
  \<^verbatim>\<open>progs\<close> has the members that call left.
\<close>

theorem tick_renders_channels_in_order:
  assumes "max_index (rot sk) = nr_progs" and "length (progs sk) = unat nr_progs"
  shows "\<exists>sk' tr pc px c p1.
           loop sk freq brightness loop_time = Some (sk', tr, pc)
         \<and> tr = concat (map (\<lambda>i. channel_calls i (if i = 0 then active_pattern sk else p1)
                                    brightness freq px)
                            [0..<nr_strips])
         \<and> p1 = fst (updateStrip (active_pattern sk) (updatePins0 (strip sk)) 0 brightness freq)
         \<and> px = pixels (snd (updateStrip (active_pattern sk) (updatePins0 (strip sk)) 0 brightness freq))
         \<and> px = replicate (numPixels (strip sk)) c
         \<and> pixels (strip sk') = px
         \<and> which_prog sk' = rotary_index (rot sk) mod nr_progs
         \<and> progs sk' = (progs sk)[unat (which_prog sk') := p1]
         \<and> rot sk' = rot sk
         \<and> strip_nrs tr = map of_nat [0..<nr_strips]
         \<and> list_all (\<lambda>n. unat n < nr_strips) (strip_nrs tr)"
proof -
  define w where "w = rotary_index (rot sk) mod nr_progs"
  have "(0 :: byte) < nr_progs" by (simp add: nr_progs_def)
  then have wl: "w < nr_progs" unfolding w_def by (rule word_mod_less_divisor)
  have w: "getIndex (rot sk) = Some w"
    using assms(1) by (simp add: getIndex_def mod_u8_def w_def nr_progs_def)
  from wl assms(2) have l: "unat w < length (progs sk)" by (simp add: word_less_nat_alt)
  have act: "active_pattern sk = progs sk ! unat w"
    using assms(1) by (simp add: active_pattern_def w_def)
  let ?prog = "active_pattern sk"
  let ?r = "strips_loop 0 ?prog (strip sk) brightness freq []"
  let ?p1 = "fst (updateStrip ?prog (updatePins0 (strip sk)) 0 brightness freq)"
  let ?px = "pixels (snd (updateStrip ?prog (updatePins0 (strip sk)) 0 brightness freq))"
  let ?tr = "concat (map (\<lambda>i. channel_calls i (if i = 0 then ?prog else ?p1) brightness freq ?px)
                         [0..<nr_strips])"
  let ?sk' = "sk\<lparr>strip := fst (snd ?r), progs := (progs sk)[unat w := fst ?r], which_prog := w\<rparr>"
  have t: "snd (snd ?r) = ?tr" and p: "fst ?r = ?p1" and x: "pixels (fst (snd ?r)) = ?px"
    by (simp_all add: strips_loop_tick)
  have lp: "loop sk freq brightness loop_time = Some (?sk', ?tr, pace (interval_millis freq) loop_time)"
    using w l t by (simp add: loop_def Let_def split_beta act)
  from updateStrip_fills [of ?prog "updatePins0 (strip sk)" brightness freq]
  obtain c where c: "?px = replicate (numPixels (strip sk)) c"
    by (auto simp add: numPixels_def updatePins0_def)
  have n: "strip_nrs ?tr = map of_nat [0..<nr_strips]" by (rule strip_nrs_channels)
  have b: "list_all (\<lambda>n. unat n < nr_strips) (strip_nrs ?tr)"
    by (simp only: strip_nrs_channels channel_nrs_below)
  have s1: "pixels (strip ?sk') = ?px" using x by simp
  have s2: "which_prog ?sk' = rotary_index (rot sk) mod nr_progs" by (simp add: w_def)
  have s3: "progs ?sk' = (progs sk)[unat (which_prog ?sk') := ?p1]" using p by simp
  have s4: "rot ?sk' = rot sk" by simp
  from lp c n b s1 s2 s3 s4 show ?thesis by blast
qed

theorem tick_renders_channels_in_order_witness:
  "max_index (rot (sketch_init HIGH HIGH\<lparr>rot := run_turns (RotaryEncoder_init 18 19 nr_progs HIGH HIGH) [CW, CW]\<rparr>)) = nr_progs
   \<and> length (progs (sketch_init HIGH HIGH\<lparr>rot := run_turns (RotaryEncoder_init 18 19 nr_progs HIGH HIGH) [CW, CW]\<rparr>)) = unat nr_progs
   \<and> active_pattern (sketch_init HIGH HIGH\<lparr>rot := run_turns (RotaryEncoder_init 18 19 nr_progs HIGH HIGH) [CW, CW]\<rparr>) = SingleColorProg
   \<and> (\<exists>sk' tr pc px c p1.
         loop (sketch_init HIGH HIGH\<lparr>rot := run_turns (RotaryEncoder_init 18 19 nr_progs HIGH HIGH) [CW, CW]\<rparr>) 300 512 0 = Some (sk', tr, pc)
       \<and> tr = concat (map (\<lambda>i. channel_calls i (if i = 0 then active_pattern (sketch_init HIGH HIGH\<lparr>rot := run_turns (RotaryEncoder_init 18 19 nr_progs HIGH HIGH) [CW, CW]\<rparr>) else p1)
                                  512 300 px)
                          [0..<nr_strips])
       \<and> p1 = fst (updateStrip (active_pattern (sketch_init HIGH HIGH\<lparr>rot := run_turns (RotaryEncoder_init 18 19 nr_progs HIGH HIGH) [CW, CW]\<rparr>)) (updatePins0 (strip (sketch_init HIGH HIGH\<lparr>rot := run_turns (RotaryEncoder_init 18 19 nr_progs HIGH HIGH) [CW, CW]\<rparr>))) 0 512 300)
       \<and> px = pixels (snd (updateStrip (active_pattern (sketch_init HIGH HIGH\<lparr>rot := run_turns (RotaryEncoder_init 18 19 nr_progs HIGH HIGH) [CW, CW]\<rparr>)) (updatePins0 (strip (sketch_init HIGH HIGH\<lparr>rot := run_turns (RotaryEncoder_init 18 19 nr_progs HIGH HIGH) [CW, CW]\<rparr>))) 0 512 300))
       \<and> px = replicate (numPixels (strip (sketch_init HIGH HIGH\<lparr>rot := run_turns (RotaryEncoder_init 18 19 nr_progs HIGH HIGH) [CW, CW]\<rparr>))) c
       \<and> pixels (strip sk') = px
       \<and> which_prog sk' = rotary_index (rot (sketch_init HIGH HIGH\<lparr>rot := run_turns (RotaryEncoder_init 18 19 nr_progs HIGH HIGH) [CW, CW]\<rparr>)) mod nr_progs
       \<and> progs sk' = (progs (sketch_init HIGH HIGH\<lparr>rot := run_turns (RotaryEncoder_init 18 19 nr_progs HIGH HIGH) [CW, CW]\<rparr>))[unat (which_prog sk') := p1]
       \<and> rot sk' = rot (sketch_init HIGH HIGH\<lparr>rot := run_turns (RotaryEncoder_init 18 19 nr_progs HIGH HIGH) [CW, CW]\<rparr>)
       \<and> strip_nrs tr = map of_nat [0..<nr_strips]
       \<and> list_all (\<lambda>n. unat n < nr_strips) (strip_nrs tr))"
proof -
  let ?e = "RotaryEncoder_init 18 19 nr_progs HIGH HIGH"
  have e: "enc_prev_pos ?e = 0" "enc_flags ?e = 0" by (simp_all add: RotaryEncoder_init_def)
  from run_turns_state [OF e, of "[CW, CW]"]
  have m: "max_index (run_turns ?e [CW, CW]) = nr_progs"
    and r: "rotary_index (run_turns ?e [CW, CW]) = 2"
    by (simp_all add: RotaryEncoder_init_def)
  have a: "max_index (rot (sketch_init HIGH HIGH\<lparr>rot := run_turns (RotaryEncoder_init 18 19 nr_progs HIGH HIGH) [CW, CW]\<rparr>)) = nr_progs"
    using m by simp
  have b: "length (progs (sketch_init HIGH HIGH\<lparr>rot := run_turns (RotaryEncoder_init 18 19 nr_progs HIGH HIGH) [CW, CW]\<rparr>)) = unat nr_progs"
    by (simp add: sketch_init_def nr_progs_def)
  have c: "active_pattern (sketch_init HIGH HIGH\<lparr>rot := run_turns (RotaryEncoder_init 18 19 nr_progs HIGH HIGH) [CW, CW]\<rparr>) = SingleColorProg"
    using m r by (simp add: active_pattern_def) (simp add: sketch_init_def nr_progs_def)
  from tick_renders_channels_in_order
         [OF a b, where freq = 300 and brightness = 512 and loop_time = 0] a b c
  show ?thesis by (intro conjI)
qed

text \<open>
  C8. For a pattern without members (\<^verbatim>\<open>SingleColorProg\<close>, \<^verbatim>\<open>ColorTempProg\<close>), the frames
  the loop shows from the one shared buffer are, channel by channel, the frames shown when
  every channel has a buffer of its own, of the same number of pixels and with any
  contents, and the pattern computes each of them from scratch: same pins, same pixel
  data, same brightness.
\<close>

theorem shared_buffer_equals_from_scratch:
  assumes "order_independent prog"
    and "\<forall>i < nr_strips. numPixels (own i) = numPixels s"
  shows "shown (snd (snd (strips_loop 0 prog s brightness freq [])))
           = render_from_scratch prog own brightness freq
       \<and> map fr_pixels (shown (snd (snd (strips_loop 0 prog s brightness freq []))))
           = map fr_pixels (render_from_scratch prog own brightness freq)"
proof -
  have px: "\<And>i. i < nr_strips \<Longrightarrow>
      pixels (snd (updateStrip prog (own i) 0 brightness freq))
        = pixels (snd (updateStrip prog (updatePins0 s) 0 brightness freq))"
    using assms(2) by (intro updateStrip_first_channel) (simp add: numPixels_def updatePins0_def)
  have "shown (snd (snd (strips_loop 0 prog s brightness freq [])))
          = map (\<lambda>j. \<lparr>fr_bus = channel_bus j,
                   fr_pixels = pixels (snd (updateStrip prog (updatePins0 s) 0 brightness freq)),
                   fr_brightness = brightness_scale brightness\<rparr>) [0..<nr_strips]"
    by (simp add: strips_loop_tick shown_channels)
  also have "\<dots> = map (\<lambda>i. \<lparr>fr_bus = channel_bus i,
                   fr_pixels = pixels (snd (updateStrip prog (own i) 0 brightness freq)),
                   fr_brightness = brightness_scale brightness\<rparr>) [0..<nr_strips]"
    using px by simp
  also have "\<dots> = render_from_scratch prog own brightness freq"
    using assms(1) by (simp add: render_from_scratch_def scratch_channels_stateless)
  finally show ?thesis by simp
qed

theorem shared_buffer_equals_from_scratch_witness:
  "order_independent SingleColorProg
   \<and> shown (snd (snd (strips_loop 0 SingleColorProg (strip (sketch_init HIGH HIGH)) 512 300 [])))
       = render_from_scratch SingleColorProg own_buffers 512 300"
proof -
  have a: "order_independent SingleColorProg" by simp
  have b: "\<forall>i < nr_strips. numPixels (own_buffers i) = numPixels (strip (sketch_init HIGH HIGH))"
    by (simp add: own_buffers_def sketch_init_def numPixels_def Adafruit_DotStar_init_def)
  from shared_buffer_equals_from_scratch [OF a b, of 512 300] a show ?thesis
    by (intro conjI) simp_all
qed

text \<open>
  C9. For each of the four patterns, \<^verbatim>\<open>updateStrip\<close> with a channel index other than 0
  returns the pattern and the buffer as they were. So all eight frames of a run of the
  loop carry the pixel data written by the call for channel 0, and the pattern's members
  after the run are those after that one call: the blinker's \<^verbatim>\<open>on\<close> is toggled once.
\<close>

theorem other_channels_replay_first:
  "(strip_nr \<noteq> 0 \<longrightarrow> updateStrip prog s strip_nr brightness freq = (prog, s))
   \<and> map fr_pixels (shown (snd (snd (strips_loop 0 prog s brightness freq []))))
       = replicate nr_strips (pixels (snd (updateStrip prog (updatePins0 s) 0 brightness freq)))
   \<and> fst (strips_loop 0 prog s brightness freq [])
       = fst (updateStrip prog (updatePins0 s) 0 brightness freq)
   \<and> fst (strips_loop 0 (BlinkerProg on) s brightness freq []) = BlinkerProg (\<not> on)"
proof -
  have "map fr_pixels (shown (snd (snd (strips_loop 0 prog s brightness freq []))))
       = replicate nr_strips (pixels (snd (updateStrip prog (updatePins0 s) 0 brightness freq)))"
    by (simp add: strips_loop_tick shown_channels comp_def map_replicate_const)
  moreover have "fst (strips_loop 0 (BlinkerProg on) s brightness freq []) = BlinkerProg (\<not> on)"
    by (simp add: strips_loop_tick Let_def)
  ultimately show ?thesis
    by (simp add: strips_loop_tick updateStrip_other_channel)
qed

theorem other_channels_replay_first_witness:
  "(3 :: byte) \<noteq> 0
   \<and> updateStrip (BlinkerProg False) (Adafruit_DotStar_init 144 53 52) 3 512 300
       = (BlinkerProg False, Adafruit_DotStar_init 144 53 52)
   \<and> fst (strips_loop 0 (BlinkerProg False) (Adafruit_DotStar_init 144 53 52) 512 300 [])
       = BlinkerProg True"
proof -
  have n: "(3 :: byte) \<noteq> 0" by simp
  from other_channels_replay_first
         [of 3 "BlinkerProg False" "Adafruit_DotStar_init 144 53 52" 512 300 False] n
  show ?thesis by simp
qed

end
